theory Spec2Isabelle
  imports Main "HOL-Library.Sublist"
begin

section \<open>Scores\<close>

text \<open>
  The search works on Python numbers: integer scores, \<open>float("inf")\<close> and \<open>-float("inf")\<close>.
  A score is an integer or one of the two infinities; the order is the numeric one.
\<close>

datatype score = MInf | Fin int | PInf

instantiation score :: linorder
begin

fun less_eq_score :: "score \<Rightarrow> score \<Rightarrow> bool" where
  "less_eq_score MInf y = True"
| "less_eq_score (Fin a) MInf = False"
| "less_eq_score (Fin a) (Fin b) = (a \<le> b)"
| "less_eq_score (Fin a) PInf = True"
| "less_eq_score PInf MInf = False"
| "less_eq_score PInf (Fin b) = False"
| "less_eq_score PInf PInf = True"

definition less_score :: "score \<Rightarrow> score \<Rightarrow> bool" where
  "less_score x y = (x \<le> y \<and> \<not> y \<le> x)"

instance
proof
  fix x y z :: score
  show "(x < y) = (x \<le> y \<and> \<not> y \<le> x)"
    by (simp add: less_score_def)
  show "x \<le> x"
    by (cases x) simp_all
  show "x \<le> y \<Longrightarrow> y \<le> z \<Longrightarrow> x \<le> z"
    by (cases x; cases y; cases z) simp_all
  show "x \<le> y \<Longrightarrow> y \<le> x \<Longrightarrow> x = y"
    by (cases x; cases y) simp_all
  show "x \<le> y \<or> y \<le> x"
    by (cases x; cases y) auto
qed

end

text \<open>Python's \<open>x += k\<close> on a score: the infinities absorb a finite summand.\<close>

fun score_add :: "score \<Rightarrow> int \<Rightarrow> score" where
  "score_add MInf k = MInf"
| "score_add (Fin a) k = Fin (a + k)"
| "score_add PInf k = PInf"

definition MATE_SCORE :: int where
  "MATE_SCORE = 1000000000"

definition MATE_THRESHOLD :: int where
  "MATE_THRESHOLD = 999000000"

section \<open>The board and the external collaborators\<close>

text \<open>
  The board is the library's mutable object: a starting position and the stack of the moves
  pushed on it. \<open>push\<close> appends a move, \<open>pop\<close> removes the last one and raises
  \<open>IndexError\<close> on an empty stack. Positions and moves are opaque.
\<close>

datatype error =
  TypeError | AttributeError | IndexError | KeyError | RecursionError | ExternalError string

record ('p, 'm) board =
  start :: 'p
  move_stack :: "'m list"

definition push :: "('p, 'm) board \<Rightarrow> 'm \<Rightarrow> ('p, 'm) board" where
  "push b m = b\<lparr>move_stack := move_stack b @ [m]\<rparr>"

definition pop :: "('p, 'm) board \<Rightarrow> error + ('p, 'm) board" where
  "pop b = (if move_stack b = [] then Inl IndexError
            else Inr (b\<lparr>move_stack := butlast (move_stack b)\<rparr>))"

definition WHITE :: bool where
  "WHITE = True"

definition BLACK :: bool where
  "BLACK = False"

text \<open>
  \<open>chess.Color.opposite(color)\<close>: in the chess library \<open>Color\<close> is the type \<open>bool\<close>,
  which has no attribute \<open>opposite\<close>; evaluating the expression raises
  \<open>AttributeError\<close> for every argument.
\<close>

definition opposite :: "bool \<Rightarrow> error + bool" where
  "opposite color = Inl AttributeError"

datatype piece_type = PAWN | KNIGHT | BISHOP | ROOK | QUEEN | KING

text \<open>
  Everything the program asks of the chess library and of the module \<open>eval\<close> is an oracle
  on the board: the predicates and enumerations of the Board Model, the Static Evaluator
  (\<open>evaluate_board\<close>, which may raise, \<open>move_value\<close>, \<open>check_end_game\<close>), and the
  results of the four feature loops, whose bodies work on library objects only and may
  raise. \<open>pieces\<close> takes its arguments as the source passes them, color first; the
  library declares them as \<open>(piece_type, color)\<close>, and the oracle stands for whatever the
  call as written returns.
\<close>

record ('p, 'm) env =
  turn :: "('p, 'm) board \<Rightarrow> bool"
  legal_moves :: "('p, 'm) board \<Rightarrow> 'm list"
  pieces :: "('p, 'm) board \<Rightarrow> bool \<Rightarrow> piece_type \<Rightarrow> nat list"
  is_checkmate :: "('p, 'm) board \<Rightarrow> bool"
  is_stalemate :: "('p, 'm) board \<Rightarrow> bool"
  is_insufficient_material :: "('p, 'm) board \<Rightarrow> bool"
  is_seventyfive_moves :: "('p, 'm) board \<Rightarrow> bool"
  is_fivefold_repetition :: "('p, 'm) board \<Rightarrow> bool"
  is_game_over :: "('p, 'm) board \<Rightarrow> bool"
  can_claim_draw :: "('p, 'm) board \<Rightarrow> bool"
  evaluate_board :: "('p, 'm) board \<Rightarrow> error + int"
  move_value :: "('p, 'm) board \<Rightarrow> 'm \<Rightarrow> bool \<Rightarrow> int \<Rightarrow> int \<Rightarrow> int \<Rightarrow> int \<Rightarrow> int \<Rightarrow> int"
  check_end_game :: "('p, 'm) board \<Rightarrow> bool"
  mobility_body :: "('p, 'm) board \<Rightarrow> bool \<Rightarrow> error + int"
  threats_body :: "('p, 'm) board \<Rightarrow> bool \<Rightarrow> error + int"
  open_lines_body :: "('p, 'm) board \<Rightarrow> bool \<Rightarrow> error + int"
  pawn_structure_body :: "('p, 'm) board \<Rightarrow> bool \<Rightarrow> error + int"

definition piece_value :: "piece_type \<Rightarrow> int" where
  "piece_value t = (case t of PAWN \<Rightarrow> 100 | ROOK \<Rightarrow> 500 | KNIGHT \<Rightarrow> 320
                     | BISHOP \<Rightarrow> 330 | QUEEN \<Rightarrow> 900 | KING \<Rightarrow> 20000)"

section \<open>Feature extractors\<close>

text \<open>
  Each of the four feature functions is declared \<open>(board, color)\<close>. A call passes the color
  as \<open>Some color\<close>; a call that leaves the positional argument out passes \<open>None\<close>, and
  Python raises \<open>TypeError\<close> before the body runs.
\<close>

definition evaluate_mobility :: "('p, 'm) env \<Rightarrow> ('p, 'm) board \<Rightarrow> bool option \<Rightarrow> error + int" where
  "evaluate_mobility E b color =
     (case color of None \<Rightarrow> Inl TypeError | Some c \<Rightarrow> mobility_body E b c)"

definition evaluate_threats :: "('p, 'm) env \<Rightarrow> ('p, 'm) board \<Rightarrow> bool option \<Rightarrow> error + int" where
  "evaluate_threats E b color =
     (case color of
        None \<Rightarrow> Inl TypeError
      | Some c \<Rightarrow> (case opposite c of Inl e \<Rightarrow> Inl e | Inr other \<Rightarrow> threats_body E b c))"

definition evaluate_open_lines :: "('p, 'm) env \<Rightarrow> ('p, 'm) board \<Rightarrow> bool option \<Rightarrow> error + int" where
  "evaluate_open_lines E b color =
     (case color of None \<Rightarrow> Inl TypeError | Some c \<Rightarrow> open_lines_body E b c)"

definition evaluate_pawn_structure :: "('p, 'm) env \<Rightarrow> ('p, 'm) board \<Rightarrow> bool option \<Rightarrow> error + int" where
  "evaluate_pawn_structure E b color =
     (case color of None \<Rightarrow> Inl TypeError | Some c \<Rightarrow> pawn_structure_body E b c)"

text \<open>
  The material score: the outer loop runs over the five piece types, the inner loop over
  both colors, each step adding
  \<open>piece_value[piece_type] * (len(board.pieces(color, piece_type)) - len(board.pieces(chess.Color.opposite(color), piece_type)))\<close>
  to \<open>score\<close>, the operands evaluated from left to right. An exception leaves both loops.
\<close>

definition material_term ::
  "('p, 'm) env \<Rightarrow> ('p, 'm) board \<Rightarrow> piece_type \<Rightarrow> bool \<Rightarrow> error + int" where
  "material_term E b piece_type color =
     (let own = int (length (pieces E b color piece_type)) in
      (case opposite color of
         Inl e \<Rightarrow> Inl e
       | Inr other \<Rightarrow>
           Inr (piece_value piece_type * (own - int (length (pieces E b other piece_type))))))"

primrec color_loop ::
  "('p, 'm) env \<Rightarrow> ('p, 'm) board \<Rightarrow> piece_type \<Rightarrow> bool list \<Rightarrow> int \<Rightarrow> error + int" where
  "color_loop E b piece_type [] score = Inr score"
| "color_loop E b piece_type (color # colors) score =
     (case material_term E b piece_type color of
        Inl e \<Rightarrow> Inl e
      | Inr t \<Rightarrow> color_loop E b piece_type colors (score + t))"

primrec piece_type_loop ::
  "('p, 'm) env \<Rightarrow> ('p, 'm) board \<Rightarrow> piece_type list \<Rightarrow> int \<Rightarrow> error + int" where
  "piece_type_loop E b [] score = Inr score"
| "piece_type_loop E b (piece_type # piece_types) score =
     (case color_loop E b piece_type [WHITE, BLACK] score of
        Inl e \<Rightarrow> Inl e
      | Inr score' \<Rightarrow> piece_type_loop E b piece_types score')"

definition evaluate_board_score :: "('p, 'm) env \<Rightarrow> ('p, 'm) board \<Rightarrow> error + int" where
  "evaluate_board_score E b =
     (case piece_type_loop E b [PAWN, ROOK, KNIGHT, BISHOP, QUEEN] 0 of
        Inl e \<Rightarrow> Inl e
      | Inr score \<Rightarrow>
          Inr (if is_checkmate E b then
                 score + (if turn E b = WHITE then MATE_SCORE else - MATE_SCORE)
               else if is_stalemate E b then 0
               else if is_insufficient_material E b then 0
               else if is_seventyfive_moves E b then 0
               else if is_fivefold_repetition E b then 0
               else score))"

definition MOBILITY_FACTOR :: int where
  "MOBILITY_FACTOR = 10"

definition THREATS_FACTOR :: int where
  "THREATS_FACTOR = 20"

definition OPEN_LINES_FACTOR :: int where
  "OPEN_LINES_FACTOR = 15"

definition PAWN_STRUCTURE_FACTOR :: int where
  "PAWN_STRUCTURE_FACTOR = 5"

text \<open>\<open>evaluate_position\<close> evaluates its five summands in the order written, the
  material score first.\<close>

definition evaluate_position :: "('p, 'm) env \<Rightarrow> ('p, 'm) board \<Rightarrow> error + int" where
  "evaluate_position E b =
     (let color = turn E b in
      (case evaluate_board_score E b of Inl e \<Rightarrow> Inl e | Inr board_score \<Rightarrow>
      (case evaluate_mobility E b (Some color) of Inl e \<Rightarrow> Inl e | Inr mobility \<Rightarrow>
      (case evaluate_threats E b (Some color) of Inl e \<Rightarrow> Inl e | Inr threats \<Rightarrow>
      (case evaluate_open_lines E b (Some color) of Inl e \<Rightarrow> Inl e | Inr open_lines \<Rightarrow>
      (case evaluate_pawn_structure E b (Some color) of Inl e \<Rightarrow> Inl e | Inr pawn_structure \<Rightarrow>
        Inr (board_score
               + MOBILITY_FACTOR * mobility
               - THREATS_FACTOR * threats
               + OPEN_LINES_FACTOR * open_lines
               + PAWN_STRUCTURE_FACTOR * pawn_structure)))))))"

section \<open>Move ordering\<close>

text \<open>
  Python's \<open>sorted(xs, key=k, reverse=r)\<close> is stable in both directions: with
  \<open>reverse=True\<close> the keys descend and equal keys keep their original order.
\<close>

definition py_sorted :: "('a \<Rightarrow> int) \<Rightarrow> bool \<Rightarrow> 'a list \<Rightarrow> 'a list" where
  "py_sorted key reverse xs =
     (if reverse then rev (sort_key key (rev xs)) else sort_key key xs)"

definition get_ordered_moves :: "('p, 'm) env \<Rightarrow> ('p, 'm) board \<Rightarrow> error + 'm list" where
  "get_ordered_moves E b =
     (case evaluate_board_score E b of Inl e \<Rightarrow> Inl e | Inr boardscore \<Rightarrow>
     (case evaluate_pawn_structure E b None of Inl e \<Rightarrow> Inl e | Inr pawnstruct \<Rightarrow>
     (case evaluate_open_lines E b None of Inl e \<Rightarrow> Inl e | Inr open_line \<Rightarrow>
     (case evaluate_threats E b None of Inl e \<Rightarrow> Inl e | Inr threats \<Rightarrow>
     (case evaluate_mobility E b None of Inl e \<Rightarrow> Inl e | Inr mobility \<Rightarrow>
       (let end_game = check_end_game E b;
            orderer = (\<lambda>move. move_value E b move end_game mobility threats open_line
                                 pawnstruct boardscore)
        in Inr (py_sorted orderer (turn E b = WHITE) (legal_moves E b))))))))"

section \<open>Search state\<close>

text \<open>
  The search mutates two things: the board (push and pop) and the module-level dictionary
  \<open>debug_info\<close>, of which only the entry \<open>"nodes"\<close> is modelled (the entry
  \<open>"time"\<close> holds wall-clock time). Every function takes the state and returns it with
  its result; a raised exception is \<open>Inl\<close>, returned with the state at the raise.
\<close>

record ('p, 'm) state =
  board :: "('p, 'm) board"
  debug_info :: "string \<rightharpoonup> int"

type_synonym ('a, 'p, 'm) result = "(error + 'a) \<times> ('p, 'm) state"

text \<open>\<open>debug_info["nodes"] += 1\<close> raises \<open>KeyError\<close> when the key is absent.\<close>

definition count_node :: "('p, 'm) state \<Rightarrow> error + ('p, 'm) state" where
  "count_node s =
     (case debug_info s ''nodes'' of
        None \<Rightarrow> Inl KeyError
      | Some k \<Rightarrow> Inr (s\<lparr>debug_info := (debug_info s)(''nodes'' \<mapsto> k + 1)\<rparr>))"

section \<open>The search engine\<close>

text \<open>
  The two loops of \<open>minimax\<close> over the ordered moves. \<open>child\<close> is the recursive call
  \<open>minimax(depth - 1, board, alpha, beta, not is_maximising_player)\<close> on the current state.
\<close>

primrec max_loop ::
  "(('p, 'm) state \<Rightarrow> score \<Rightarrow> score \<Rightarrow> (score, 'p, 'm) result) \<Rightarrow> 'm list \<Rightarrow> ('p, 'm) state
     \<Rightarrow> score \<Rightarrow> score \<Rightarrow> score \<Rightarrow> (score, 'p, 'm) result" where
  "max_loop child [] s best_move alpha beta = (Inr best_move, s)"
| "max_loop child (move # moves) s best_move alpha beta =
     (case child (s\<lparr>board := push (board s) move\<rparr>) alpha beta of
        (Inl e, s1) \<Rightarrow> (Inl e, s1)
      | (Inr curr_move, s1) \<Rightarrow>
          (let curr_move = (if curr_move > Fin MATE_THRESHOLD then score_add curr_move (- 1)
                            else if curr_move < Fin (- MATE_THRESHOLD) then score_add curr_move 1
                            else curr_move);
               best_move = max best_move curr_move
           in (case pop (board s1) of
                 Inl e \<Rightarrow> (Inl e, s1)
               | Inr b \<Rightarrow>
                   (let s2 = s1\<lparr>board := b\<rparr>;
                        alpha = max alpha best_move
                    in if beta \<le> alpha then (Inr best_move, s2)
                       else max_loop child moves s2 best_move alpha beta))))"

primrec min_loop ::
  "(('p, 'm) state \<Rightarrow> score \<Rightarrow> score \<Rightarrow> (score, 'p, 'm) result) \<Rightarrow> 'm list \<Rightarrow> ('p, 'm) state
     \<Rightarrow> score \<Rightarrow> score \<Rightarrow> score \<Rightarrow> (score, 'p, 'm) result" where
  "min_loop child [] s best_move alpha beta = (Inr best_move, s)"
| "min_loop child (move # moves) s best_move alpha beta =
     (case child (s\<lparr>board := push (board s) move\<rparr>) alpha beta of
        (Inl e, s1) \<Rightarrow> (Inl e, s1)
      | (Inr curr_move, s1) \<Rightarrow>
          (let curr_move = (if curr_move > Fin MATE_THRESHOLD then score_add curr_move (- 1)
                            else if curr_move < Fin (- MATE_THRESHOLD) then score_add curr_move 1
                            else curr_move);
               best_move = min best_move curr_move
           in (case pop (board s1) of
                 Inl e \<Rightarrow> (Inl e, s1)
               | Inr b \<Rightarrow>
                   (let s2 = s1\<lparr>board := b\<rparr>;
                        beta = min beta best_move
                    in if beta \<le> alpha then (Inr best_move, s2)
                       else min_loop child moves s2 best_move alpha beta))))"

text \<open>
  \<open>minimax\<close>. The first argument after the environment and the move orderer bounds the
  nesting of recursive calls (the interpreter's recursion limit): a call with no frame left
  raises \<open>RecursionError\<close>. \<open>depth\<close> is an unbounded integer, tested with \<open>== 0\<close> only.
  The move orderer called at every node is the parameter \<open>gom\<close>. The module calls its own
  \<open>get_ordered_moves\<close>: the program is the instance \<open>gom = get_ordered_moves E\<close>, and
  what is stated for every \<open>gom\<close> holds of it.
\<close>

primrec minimax ::
  "('p, 'm) env \<Rightarrow> (('p, 'm) board \<Rightarrow> error + 'm list) \<Rightarrow> nat \<Rightarrow> int \<Rightarrow> ('p, 'm) state
     \<Rightarrow> score \<Rightarrow> score \<Rightarrow> bool \<Rightarrow> (score, 'p, 'm) result" where
  "minimax E gom 0 depth s alpha beta is_maximising_player = (Inl RecursionError, s)"
| "minimax E gom (Suc n) depth s alpha beta is_maximising_player =
     (case count_node s of
        Inl e \<Rightarrow> (Inl e, s)
      | Inr s0 \<Rightarrow>
          if is_checkmate E (board s0) then
            (Inr (if is_maximising_player then Fin (- MATE_SCORE) else Fin MATE_SCORE), s0)
          else if is_game_over E (board s0) then (Inr (Fin 0), s0)
          else if depth = 0 then
            (case evaluate_board E (board s0) of
               Inl e \<Rightarrow> (Inl e, s0)
             | Inr v \<Rightarrow> (Inr (Fin v), s0))
          else if is_maximising_player then
            (case gom (board s0) of
               Inl e \<Rightarrow> (Inl e, s0)
             | Inr moves \<Rightarrow>
                 max_loop (\<lambda>s' a b. minimax E gom n (depth - 1) s' a b (\<not> is_maximising_player))
                   moves s0 MInf alpha beta)
          else
            (case gom (board s0) of
               Inl e \<Rightarrow> (Inl e, s0)
             | Inr moves \<Rightarrow>
                 min_loop (\<lambda>s' a b. minimax E gom n (depth - 1) s' a b (\<not> is_maximising_player))
                   moves s0 PInf alpha beta))"

section \<open>The root driver\<close>

text \<open>
  The loop of \<open>minimax_root\<close>; \<open>child\<close> is the call
  \<open>minimax(depth - 1, board, -inf, inf, not maximize)\<close>. The loop's locals
  \<open>best_move\<close> (a score) and \<open>best_move_found\<close> are returned together.
\<close>

primrec root_loop ::
  "('p, 'm) env \<Rightarrow> (('p, 'm) state \<Rightarrow> (score, 'p, 'm) result) \<Rightarrow> bool \<Rightarrow> 'm list
     \<Rightarrow> ('p, 'm) state \<Rightarrow> score \<Rightarrow> 'm \<Rightarrow> (score \<times> 'm, 'p, 'm) result" where
  "root_loop E child maximize [] s best_move best_move_found =
     (Inr (best_move, best_move_found), s)"
| "root_loop E child maximize (move # moves) s best_move best_move_found =
     (let s1 = s\<lparr>board := push (board s) move\<rparr> in
      (case (if can_claim_draw E (board s1) then (Inr (Fin 0), s1) else child s1) of
         (Inl e, s2) \<Rightarrow> (Inl e, s2)
       | (Inr val, s2) \<Rightarrow>
           (case pop (board s2) of
              Inl e \<Rightarrow> (Inl e, s2)
            | Inr b \<Rightarrow>
                (let s3 = s2\<lparr>board := b\<rparr> in
                 if maximize \<and> val \<ge> best_move then root_loop E child maximize moves s3 val move
                 else if \<not> maximize \<and> val \<le> best_move then root_loop E child maximize moves s3 val move
                 else root_loop E child maximize moves s3 best_move best_move_found))))"

text \<open>\<open>minimax_root_select\<close> is the body of \<open>minimax_root\<close> up to its \<open>return\<close>,
  keeping both locals; \<open>minimax_root\<close> returns \<open>best_move_found\<close>. \<open>moves[0]\<close> raises
  \<open>IndexError\<close> on an empty list.\<close>

definition minimax_root_select ::
  "('p, 'm) env \<Rightarrow> (('p, 'm) board \<Rightarrow> error + 'm list) \<Rightarrow> nat \<Rightarrow> int \<Rightarrow> ('p, 'm) state
     \<Rightarrow> (score \<times> 'm, 'p, 'm) result" where
  "minimax_root_select E gom n depth s =
     (let maximize = (turn E (board s) = WHITE);
          best_move = (if \<not> maximize then PInf else MInf)
      in (case gom (board s) of
            Inl e \<Rightarrow> (Inl e, s)
          | Inr moves \<Rightarrow>
              (case moves of
                 [] \<Rightarrow> (Inl IndexError, s)
               | best_move_found # _ \<Rightarrow>
                   root_loop E (\<lambda>s'. minimax E gom n (depth - 1) s' MInf PInf (\<not> maximize))
                     maximize moves s best_move best_move_found)))"

definition minimax_root ::
  "('p, 'm) env \<Rightarrow> (('p, 'm) board \<Rightarrow> error + 'm list) \<Rightarrow> nat \<Rightarrow> int \<Rightarrow> ('p, 'm) state
     \<Rightarrow> ('m, 'p, 'm) result" where
  "minimax_root E gom n depth s =
     (case minimax_root_select E gom n depth s of
        (Inl e, s') \<Rightarrow> (Inl e, s')
      | (Inr (best_move, best_move_found), s') \<Rightarrow> (Inr best_move_found, s'))"

text \<open>\<open>next_move\<close> clears \<open>debug_info\<close>, sets the node counter to zero and calls the
  root driver (timing and printing are left out).\<close>

definition next_move ::
  "('p, 'm) env \<Rightarrow> (('p, 'm) board \<Rightarrow> error + 'm list) \<Rightarrow> nat \<Rightarrow> int \<Rightarrow> ('p, 'm) state
     \<Rightarrow> ('m, 'p, 'm) result" where
  "next_move E gom n depth s =
     minimax_root E gom n depth (s\<lparr>debug_info := Map.empty(''nodes'' \<mapsto> 0)\<rparr>)"

section \<open>The unpruned reference search\<close>

text \<open>
  The full-width minimax of the specification's pruning-equivalence property: the same
  terminal checks, depth-zero leaf, move ordering and mate-distance adjustment, every move
  of every node searched, no bounds. It is a function of the board alone.
\<close>

definition mate_adjust :: "score \<Rightarrow> score" where
  "mate_adjust v =
     (if v > Fin MATE_THRESHOLD then score_add v (- 1)
      else if v < Fin (- MATE_THRESHOLD) then score_add v 1
      else v)"

primrec full_loop ::
  "bool \<Rightarrow> ('m \<Rightarrow> error + score) \<Rightarrow> 'm list \<Rightarrow> score \<Rightarrow> error + score" where
  "full_loop is_max child [] best = Inr best"
| "full_loop is_max child (move # moves) best =
     (case child move of
        Inl e \<Rightarrow> Inl e
      | Inr v \<Rightarrow>
          full_loop is_max child moves
            (if is_max then max best (mate_adjust v) else min best (mate_adjust v)))"

primrec full_minimax ::
  "('p, 'm) env \<Rightarrow> (('p, 'm) board \<Rightarrow> error + 'm list) \<Rightarrow> nat \<Rightarrow> int \<Rightarrow> ('p, 'm) board
     \<Rightarrow> bool \<Rightarrow> error + score" where
  "full_minimax E gom 0 depth b is_max = Inl RecursionError"
| "full_minimax E gom (Suc n) depth b is_max =
     (if is_checkmate E b then Inr (if is_max then Fin (- MATE_SCORE) else Fin MATE_SCORE)
      else if is_game_over E b then Inr (Fin 0)
      else if depth = 0 then
        (case evaluate_board E b of Inl e \<Rightarrow> Inl e | Inr v \<Rightarrow> Inr (Fin v))
      else
        (case gom b of
           Inl e \<Rightarrow> Inl e
         | Inr moves \<Rightarrow>
             full_loop is_max (\<lambda>m. full_minimax E gom n (depth - 1) (push b m) (\<not> is_max))
               moves (if is_max then MInf else PInf)))"

text \<open>The value of one root move, and the root's choice over the ordered moves.\<close>

definition full_root_value ::
  "('p, 'm) env \<Rightarrow> (('p, 'm) board \<Rightarrow> error + 'm list) \<Rightarrow> nat \<Rightarrow> int \<Rightarrow> ('p, 'm) board
     \<Rightarrow> bool \<Rightarrow> 'm \<Rightarrow> error + score" where
  "full_root_value E gom n depth b maximize m =
     (if can_claim_draw E (push b m) then Inr (Fin 0)
      else full_minimax E gom n (depth - 1) (push b m) (\<not> maximize))"

primrec full_root_loop ::
  "bool \<Rightarrow> ('m \<Rightarrow> error + score) \<Rightarrow> 'm list \<Rightarrow> score \<Rightarrow> 'm \<Rightarrow> error + score \<times> 'm" where
  "full_root_loop maximize child [] best found = Inr (best, found)"
| "full_root_loop maximize child (move # moves) best found =
     (case child move of
        Inl e \<Rightarrow> Inl e
      | Inr v \<Rightarrow>
          if maximize \<and> v \<ge> best then full_root_loop maximize child moves v move
          else if \<not> maximize \<and> v \<le> best then full_root_loop maximize child moves v move
          else full_root_loop maximize child moves best found)"

definition full_root_select ::
  "('p, 'm) env \<Rightarrow> (('p, 'm) board \<Rightarrow> error + 'm list) \<Rightarrow> nat \<Rightarrow> int \<Rightarrow> ('p, 'm) board
     \<Rightarrow> error + score \<times> 'm" where
  "full_root_select E gom n depth b =
     (let maximize = (turn E b = WHITE) in
      (case gom b of
         Inl e \<Rightarrow> Inl e
       | Inr moves \<Rightarrow>
           (case moves of
              [] \<Rightarrow> Inl IndexError
            | m0 # _ \<Rightarrow>
                full_root_loop maximize (full_root_value E gom n depth b maximize) moves
                  (if maximize then MInf else PInf) m0)))"

section \<open>Example positions\<close>

text \<open>
  Concrete environments for evaluating the definitions. A position is a game tree: each
  node says whether it is checkmate, otherwise over, a claimable draw, what the evaluator
  returns on it, and which labelled moves lead to which nodes. The board of a search is the
  root with the path of moves pushed so far; White moves at the root iff \<open>w\<close>.
\<close>

datatype gtree = Pos bool bool bool "error + int" "(nat \<times> gtree) list"

primrec g_mate :: "gtree \<Rightarrow> bool" where
  "g_mate (Pos m ov d e ks) = m"

primrec g_over :: "gtree \<Rightarrow> bool" where
  "g_over (Pos m ov d e ks) = (m \<or> ov)"

primrec g_draw :: "gtree \<Rightarrow> bool" where
  "g_draw (Pos m ov d e ks) = d"

primrec g_eval :: "gtree \<Rightarrow> error + int" where
  "g_eval (Pos m ov d e ks) = e"

primrec g_kids :: "gtree \<Rightarrow> (nat \<times> gtree) list" where
  "g_kids (Pos m ov d e ks) = ks"

text \<open>A path that leaves the tree ends in a dead position (over, no moves).\<close>

definition g_dead :: gtree where
  "g_dead = Pos False True False (Inr 0) []"

primrec g_at :: "gtree \<Rightarrow> nat list \<Rightarrow> gtree" where
  "g_at t [] = t"
| "g_at t (m # ms) = (case map_of (g_kids t) m of None \<Rightarrow> g_dead | Some t' \<Rightarrow> g_at t' ms)"

definition g_node :: "(gtree, nat) board \<Rightarrow> gtree" where
  "g_node b = g_at (start b) (move_stack b)"

definition tree_env :: "bool \<Rightarrow> (gtree, nat) env" where
  "tree_env w =
     \<lparr> turn = (\<lambda>b. if even (length (move_stack b)) then w else \<not> w),
       legal_moves = (\<lambda>b. map fst (g_kids (g_node b))),
       pieces = (\<lambda>b c t. []),
       is_checkmate = (\<lambda>b. g_mate (g_node b)),
       is_stalemate = (\<lambda>b. False),
       is_insufficient_material = (\<lambda>b. False),
       is_seventyfive_moves = (\<lambda>b. False),
       is_fivefold_repetition = (\<lambda>b. False),
       is_game_over = (\<lambda>b. g_over (g_node b)),
       can_claim_draw = (\<lambda>b. g_draw (g_node b)),
       evaluate_board = (\<lambda>b. g_eval (g_node b)),
       move_value = (\<lambda>b m eg mo th ol ps bs. 0),
       check_end_game = (\<lambda>b. False),
       mobility_body = (\<lambda>b c. Inl TypeError),
       threats_body = (\<lambda>b c. Inl AttributeError),
       open_lines_body = (\<lambda>b c. Inl TypeError),
       pawn_structure_body = (\<lambda>b c. Inl AttributeError) \<rparr>"

text \<open>An orderer that returns the legal moves in their enumeration order. It is not the
  module's orderer: it instantiates the parameter \<open>gom\<close> where a statement for every
  orderer is evaluated on an orderer that returns.\<close>

definition tree_order :: "(gtree, nat) board \<Rightarrow> error + nat list" where
  "tree_order b = Inr (map fst (g_kids (g_node b)))"

definition tree_state :: "gtree \<Rightarrow> (gtree, nat) state" where
  "tree_state t = \<lparr> board = \<lparr> start = t, move_stack = [] \<rparr>, debug_info = Map.empty(''nodes'' \<mapsto> 0) \<rparr>"

definition g_leaf :: "int \<Rightarrow> gtree" where
  "g_leaf v = Pos False False False (Inr v) []"

definition g_checkmate :: gtree where
  "g_checkmate = Pos True True False (Inr 0) []"

definition g_inner :: "(nat \<times> gtree) list \<Rightarrow> gtree" where
  "g_inner ks = Pos False False False (Inr 0) ks"

text \<open>A position with one move, after which the evaluator raises.\<close>

definition raising_tree :: gtree where
  "raising_tree =
     g_inner [(0, Pos False False False (Inl (ExternalError ''malformed position'')) [])]"

text \<open>A position with one move to a quiet leaf that the evaluator scores 7.\<close>

definition one_move_tree :: gtree where
  "one_move_tree = g_inner [(0, g_leaf 7)]"

text \<open>A position with one move that checkmates, and one with a claimable draw after the
  first of two moves.\<close>

definition mate_in_one :: gtree where
  "mate_in_one = g_inner [(0, g_checkmate)]"

definition draw_then_leaf :: gtree where
  "draw_then_leaf = g_inner [(0, Pos False False True (Inr 50) []), (1, g_leaf 7)]"


text \<open>A line of three moves that ends in checkmate: White moves, Black answers, White mates.\<close>

definition mate_line :: gtree where
  "mate_line = g_inner [(0, g_inner [(0, g_inner [(0, g_checkmate)])])]"

text \<open>
  A position with forced mates of different lengths. White is to move and has two moves.
  After move 0 a single line leads to checkmate of Black at ply 5. After move 1 Black
  chooses between a line that is mated at ply 5 and a line in which White, at ply 4,
  has a move after which Black is mated at ply 7, ordered before a move that mates at once.
\<close>

definition mate_at_5 :: gtree where
  "mate_at_5 = g_inner [(0, g_inner [(0, g_inner [(0, g_inner [(0, g_checkmate)])])])]"

definition mate_at_5_from_2 :: gtree where
  "mate_at_5_from_2 = g_inner [(0, g_inner [(0, g_inner [(0, g_checkmate)])])]"

definition slow_then_fast :: gtree where
  "slow_then_fast =
     g_inner [(0, g_inner [(0, g_inner [(0, g_inner [(0, g_checkmate)])]), (1, g_checkmate)])]"

definition mates_tree :: gtree where
  "mates_tree =
     g_inner [(0, mate_at_5),
              (1, g_inner [(0, mate_at_5_from_2), (1, g_inner [(0, slow_then_fast)])])]"


section \<open>Auxiliary notions for the proofs\<close>

text \<open>
  \<open>same_board s t\<close>: the two states hold the same board and agree on whether the node
  counter exists. \<open>grows s res\<close>: the result state of a call started in \<open>s\<close> has the same
  starting position and the counter exists in it iff it did in \<open>s\<close>; after a normal return
  its move stack is that of \<open>s\<close>, after a raise it extends that of \<open>s\<close>.
\<close>

definition same_board :: "('p, 'm) state \<Rightarrow> ('p, 'm) state \<Rightarrow> bool" where
  "same_board s t =
     (board s = board t
      \<and> (debug_info s ''nodes'' = None) = (debug_info t ''nodes'' = None))"

definition grows :: "('p, 'm) state \<Rightarrow> (error + 'a) \<times> ('p, 'm) state \<Rightarrow> bool" where
  "grows s res =
     (start (board (snd res)) = start (board s)
      \<and> (debug_info (snd res) ''nodes'' = None) = (debug_info s ''nodes'' = None)
      \<and> (case fst res of
            Inr v \<Rightarrow> move_stack (board (snd res)) = move_stack (board s)
          | Inl e \<Rightarrow> prefix (move_stack (board s)) (move_stack (board (snd res)))))"

text \<open>The value the root loop obtains for one move, on the state with the move pushed,
  and the test under which the loop replaces its selection.\<close>

definition root_branch ::
  "('p, 'm) env \<Rightarrow> (('p, 'm) state \<Rightarrow> (score, 'p, 'm) result) \<Rightarrow> ('p, 'm) state
     \<Rightarrow> (score, 'p, 'm) result" where
  "root_branch E child s1 =
     (if can_claim_draw E (board s1) then (Inr (Fin 0), s1) else child s1)"

definition root_update :: "bool \<Rightarrow> score \<Rightarrow> score \<Rightarrow> bool" where
  "root_update maximize best v = ((maximize \<and> v \<ge> best) \<or> (\<not> maximize \<and> v \<le> best))"

text \<open>\<open>same_result\<close>: two calls end alike, with the same value or exception and in states
  that hold the same board.\<close>

definition same_result ::
  "(error + 'a) \<times> ('p, 'm) state \<Rightarrow> (error + 'a) \<times> ('p, 'm) state \<Rightarrow> bool" where
  "same_result x y = (fst x = fst y \<and> same_board (snd x) (snd y))"

text \<open>The value \<open>minimax_root\<close> obtains for the root move \<open>m\<close>, computed on the state of
  the call: 0 on a claimable draw, else the result of \<open>minimax\<close> with the full window.\<close>

definition root_value ::
  "('p, 'm) env \<Rightarrow> (('p, 'm) board \<Rightarrow> error + 'm list) \<Rightarrow> nat \<Rightarrow> int \<Rightarrow> ('p, 'm) state
     \<Rightarrow> 'm \<Rightarrow> error + score" where
  "root_value E gom n depth s m =
     fst (root_branch E
            (\<lambda>s'. minimax E gom n (depth - 1) s' MInf PInf (\<not> (turn E (board s) = WHITE)))
            (s\<lparr>board := push (board s) m\<rparr>))"


text \<open>
  Notions for comparing the pruned and the unpruned search. A score is \<open>tame\<close> if the
  mate-distance adjustment leaves it unchanged. \<open>knows alpha beta c v\<close> is what a search
  result \<open>c\<close> for the window \<open>(alpha, beta)\<close> says about the unpruned value \<open>v\<close>: at most
  \<open>alpha\<close>, at least \<open>beta\<close>, or exactly \<open>c\<close>. \<open>no_mates\<close> checks the positions that the
  unpruned search visits: none is a checkmate and every leaf evaluation is within
  \<open>MATE_THRESHOLD\<close>.
\<close>

definition tame :: "score \<Rightarrow> bool" where
  "tame v = (mate_adjust v = v)"

definition knows :: "score \<Rightarrow> score \<Rightarrow> score \<Rightarrow> score \<Rightarrow> bool" where
  "knows alpha beta c v =
     ((c \<le> alpha \<longrightarrow> v \<le> alpha) \<and> (beta \<le> c \<longrightarrow> beta \<le> v) \<and> (alpha < c \<and> c < beta \<longrightarrow> c = v))"




section \<open>Basic facts\<close>

lemma pop_push [simp]: "pop (push b m) = Inr b"
  by (simp add: pop_def push_def)

lemma count_node_board: "count_node s = Inr s0 \<Longrightarrow> board s0 = board s"
  by (auto simp: count_node_def split: option.splits)

lemma count_node_Some:
  "debug_info s ''nodes'' = Some k \<Longrightarrow>
     count_node s = Inr (s\<lparr>debug_info := (debug_info s)(''nodes'' \<mapsto> k + 1)\<rparr>)"
  by (simp add: count_node_def)


lemma material_term_Inl: "material_term E b piece_type color = Inl AttributeError"
  by (simp add: material_term_def opposite_def Let_def)

lemma board_score_Inl: "evaluate_board_score E b = Inl AttributeError"
  by (simp add: evaluate_board_score_def material_term_Inl)

lemma get_ordered_moves_Inl [simp]: "get_ordered_moves E b = Inl AttributeError"
  by (simp add: get_ordered_moves_def board_score_Inl)

section \<open>The move orderer\<close>

text \<open>
  C3. For every position \<open>get_ordered_moves\<close> raises, and so do \<open>minimax_root\<close> and
  \<open>next_move\<close> for every depth, in the state they order the moves in: no move has been
  pushed. The call that raises is the first call of the orderer, \<open>evaluate_board_score\<close>
  (\<open>AttributeError\<close>). Each of the four calls that follow it passes the board only to a
  function declared \<open>(board, color)\<close>, and each such call raises \<open>TypeError\<close>.
\<close>

theorem get_ordered_moves_raises:
  "get_ordered_moves E b = Inl AttributeError
   \<and> evaluate_pawn_structure E b None = Inl TypeError
   \<and> evaluate_open_lines E b None = Inl TypeError
   \<and> evaluate_threats E b None = Inl TypeError
   \<and> evaluate_mobility E b None = Inl TypeError
   \<and> minimax_root E (get_ordered_moves E) n depth s = (Inl AttributeError, s)
   \<and> next_move E (get_ordered_moves E) n depth s
        = (Inl AttributeError, s\<lparr>debug_info := Map.empty(''nodes'' \<mapsto> 0)\<rparr>)"
  by (simp add: get_ordered_moves_def evaluate_board_score_def material_term_def opposite_def
      evaluate_mobility_def evaluate_threats_def evaluate_open_lines_def
      evaluate_pawn_structure_def minimax_root_def minimax_root_select_def next_move_def Let_def)

section \<open>The material score\<close>

text \<open>
  C4. \<open>evaluate_board_score\<close> returns no score: on every board, checkmate and drawn
  boards included, the first iteration of its loops (pawns, White) evaluates
  \<open>chess.Color.opposite(color)\<close> and raises \<open>AttributeError\<close>, before any term is added
  and before the checkmate and draw tests. So does \<open>evaluate_position\<close>, whose first
  summand it is.
\<close>

theorem evaluate_board_score_raises:
  "material_term E b PAWN WHITE = Inl AttributeError
   \<and> evaluate_board_score E b = Inl AttributeError
   \<and> evaluate_position E b = Inl AttributeError"
  by (simp add: evaluate_position_def evaluate_board_score_def material_term_def opposite_def
      Let_def)

section \<open>Terminal checks and the depth-zero leaf\<close>

text \<open>
  C5. A call of \<open>minimax\<close> that has a frame and whose node counter exists decides, for
  every depth, bounds and move orderer: on a checkmate it returns \<open>-MATE_SCORE\<close> when
  maximizing and \<open>MATE_SCORE\<close> when minimizing; on any other game-over position it
  returns 0; otherwise, at depth 0, it returns what \<open>evaluate_board\<close> returns, unchanged.
  The move orderer is not consulted in any of the three cases.
\<close>

theorem minimax_terminal_checks:
  assumes "count_node s = Inr s0"
  shows "(is_checkmate E (board s) \<longrightarrow>
            minimax E gom (Suc n) depth s alpha beta is_max
              = (Inr (Fin (if is_max then - MATE_SCORE else MATE_SCORE)), s0))
       \<and> (\<not> is_checkmate E (board s) \<and> is_game_over E (board s) \<longrightarrow>
            minimax E gom (Suc n) depth s alpha beta is_max = (Inr (Fin 0), s0))
       \<and> (\<not> is_checkmate E (board s) \<and> \<not> is_game_over E (board s) \<and> depth = 0 \<longrightarrow>
            minimax E gom (Suc n) depth s alpha beta is_max
              = (case evaluate_board E (board s) of
                   Inl e \<Rightarrow> (Inl e, s0)
                 | Inr v \<Rightarrow> (Inr (Fin v), s0)))"
  using assms count_node_board[OF assms] by simp

theorem minimax_terminal_checks_witness:
  "fst (minimax (tree_env True) (\<lambda>b. Inl TypeError) (Suc 0) 3 (tree_state g_checkmate) (Fin 5) (Fin 2) True)
     = Inr (Fin (- MATE_SCORE))
   \<and> fst (minimax (tree_env True) (\<lambda>b. Inl TypeError) (Suc 0) 3 (tree_state g_checkmate) (Fin 5) (Fin 2) False)
     = Inr (Fin MATE_SCORE)
   \<and> fst (minimax (tree_env True) (\<lambda>b. Inl TypeError) (Suc 0) 3 (tree_state g_dead) MInf PInf True)
     = Inr (Fin 0)
   \<and> fst (minimax (tree_env True) (\<lambda>b. Inl TypeError) (Suc 0) 0 (tree_state (g_leaf 42)) MInf PInf True)
     = Inr (Fin 42)"
proof -
  have c: "\<And>t. count_node (tree_state t)
             = Inr ((tree_state t)\<lparr>debug_info := (debug_info (tree_state t))(''nodes'' \<mapsto> 0 + 1)\<rparr>)"
    by (rule count_node_Some) (simp add: tree_state_def)
  have m: "is_checkmate (tree_env True) (board (tree_state g_checkmate))"
    by (simp add: tree_env_def tree_state_def g_node_def g_checkmate_def)
  have d: "\<not> is_checkmate (tree_env True) (board (tree_state g_dead))
           \<and> is_game_over (tree_env True) (board (tree_state g_dead))"
    by (simp add: tree_env_def tree_state_def g_node_def g_dead_def)
  have l: "\<not> is_checkmate (tree_env True) (board (tree_state (g_leaf 42)))
           \<and> \<not> is_game_over (tree_env True) (board (tree_state (g_leaf 42)))
           \<and> evaluate_board (tree_env True) (board (tree_state (g_leaf 42))) = Inr 42"
    by (simp add: tree_env_def tree_state_def g_node_def g_leaf_def)
  show ?thesis
    using minimax_terminal_checks[OF c, of "tree_env True" g_checkmate "\<lambda>b. Inl TypeError" 0 3 "Fin 5" "Fin 2" True]
      minimax_terminal_checks[OF c, of "tree_env True" g_checkmate "\<lambda>b. Inl TypeError" 0 3 "Fin 5" "Fin 2" False]
      minimax_terminal_checks[OF c, of "tree_env True" g_dead "\<lambda>b. Inl TypeError" 0 3 MInf PInf True]
      minimax_terminal_checks[OF c, of "tree_env True" "g_leaf 42" "\<lambda>b. Inl TypeError" 0 0 MInf PInf True]
      m d l
    by simp
qed


lemma score_less_simps [simp]:
  "Fin a < Fin b \<longleftrightarrow> a < b"
  "MInf < Fin a" "Fin a < PInf" "MInf < PInf"
  "\<not> Fin a < MInf" "\<not> PInf < Fin a" "\<not> PInf < MInf"
  "\<not> x < MInf" "\<not> PInf < x"
  by (cases x; auto simp: less_score_def)+

lemma score_le_simps [simp]: "x \<le> PInf" "PInf \<le> x \<longleftrightarrow> x = PInf" "x \<le> MInf \<longleftrightarrow> x = MInf"
  by (cases x; simp)+

section \<open>One iteration of each loop\<close>

lemma max_loop_step:
  assumes "child (s\<lparr>board := push (board s) m\<rparr>) alpha beta = (r, s1)"
  shows "max_loop child (m # ms) s best alpha beta =
     (case r of
        Inl e \<Rightarrow> (Inl e, s1)
      | Inr c \<Rightarrow>
          (case pop (board s1) of
             Inl e \<Rightarrow> (Inl e, s1)
           | Inr b \<Rightarrow>
               if beta \<le> max alpha (max best (mate_adjust c))
               then (Inr (max best (mate_adjust c)), s1\<lparr>board := b\<rparr>)
               else max_loop child ms (s1\<lparr>board := b\<rparr>) (max best (mate_adjust c))
                      (max alpha (max best (mate_adjust c))) beta))"
  using assms by (simp add: Let_def mate_adjust_def split: sum.splits)

lemma min_loop_step:
  assumes "child (s\<lparr>board := push (board s) m\<rparr>) alpha beta = (r, s1)"
  shows "min_loop child (m # ms) s best alpha beta =
     (case r of
        Inl e \<Rightarrow> (Inl e, s1)
      | Inr c \<Rightarrow>
          (case pop (board s1) of
             Inl e \<Rightarrow> (Inl e, s1)
           | Inr b \<Rightarrow>
               if min beta (min best (mate_adjust c)) \<le> alpha
               then (Inr (min best (mate_adjust c)), s1\<lparr>board := b\<rparr>)
               else min_loop child ms (s1\<lparr>board := b\<rparr>) (min best (mate_adjust c))
                      alpha (min beta (min best (mate_adjust c)))))"
  using assms by (simp add: Let_def mate_adjust_def split: sum.splits)

lemma root_loop_step:
  assumes "root_branch E child (s\<lparr>board := push (board s) m\<rparr>) = (r, s1)"
  shows "root_loop E child maximize (m # ms) s best found =
     (case r of
        Inl e \<Rightarrow> (Inl e, s1)
      | Inr v \<Rightarrow>
          (case pop (board s1) of
             Inl e \<Rightarrow> (Inl e, s1)
           | Inr b \<Rightarrow>
               root_loop E child maximize ms (s1\<lparr>board := b\<rparr>)
                 (if root_update maximize best v then v else best)
                 (if root_update maximize best v then m else found)))"
proof -
  have "root_loop E child maximize (m # ms) s best found =
     (case root_branch E child (s\<lparr>board := push (board s) m\<rparr>) of
        (Inl e, s2) \<Rightarrow> (Inl e, s2)
      | (Inr v, s2) \<Rightarrow>
          (case pop (board s2) of
             Inl e \<Rightarrow> (Inl e, s2)
           | Inr b \<Rightarrow>
               root_loop E child maximize ms (s2\<lparr>board := b\<rparr>)
                 (if root_update maximize best v then v else best)
                 (if root_update maximize best v then m else found)))"
    unfolding root_loop.simps root_branch_def root_update_def Let_def
    by (auto split: prod.splits sum.splits)
  then show ?thesis
    using assms by simp
qed

lemma minimax_root_select_unfold:
  "minimax_root_select E gom n depth s =
     (case gom (board s) of
        Inl e \<Rightarrow> (Inl e, s)
      | Inr moves \<Rightarrow>
          (case moves of
             [] \<Rightarrow> (Inl IndexError, s)
           | m0 # _ \<Rightarrow>
               root_loop E (\<lambda>s'. minimax E gom n (depth - 1) s' MInf PInf (turn E (board s) \<noteq> WHITE))
                 (turn E (board s) = WHITE) moves s
                 (if turn E (board s) = WHITE then MInf else PInf) m0))"
  by (simp add: minimax_root_select_def Let_def split: sum.splits list.splits)

declare max_loop.simps(2) [simp del] min_loop.simps(2) [simp del] root_loop.simps(2) [simp del]

section \<open>The board after a call\<close>





lemma count_node_same: "count_node s = Inr s0 \<Longrightarrow> same_board s s0"
  by (auto simp: count_node_def same_board_def split: option.splits)

lemma grows_refl [simp]: "grows s (r, s)"
  by (simp add: grows_def split: sum.splits)

lemma grows_same_board: "same_board s s' \<Longrightarrow> grows s (r, s')"
  by (simp add: grows_def same_board_def split: sum.splits)

lemma grows_after_push:
  "grows (s\<lparr>board := push (board s) m\<rparr>) (Inl e, s') \<Longrightarrow> grows s (Inl e', s')"
  by (auto simp: grows_def push_def prefix_def)

lemma grows_chain:
  "same_board s s2 \<Longrightarrow> grows s2 res \<Longrightarrow> grows s res"
  by (cases "fst res") (auto simp: grows_def same_board_def)

lemma grows_Inr_same: "grows s (Inr v, s') \<Longrightarrow> same_board s s'"
  by (simp add: grows_def same_board_def)

lemma grows_pushed_Inr:
  "grows (s\<lparr>board := push (board s) m\<rparr>) (Inr v, s1) \<Longrightarrow> board s1 = push (board s) m"
  by (simp add: grows_def)

lemma grows_pushed_restore:
  "grows (s\<lparr>board := push (board s) m\<rparr>) (Inr v, s1) \<Longrightarrow> same_board s (s1\<lparr>board := board s\<rparr>)"
  by (simp add: grows_def same_board_def)

lemma max_loop_grows:
  assumes ch: "\<And>t a b. grows t (child t a b)"
  shows "grows s (max_loop child ms s best alpha beta)"
proof (induction ms arbitrary: s best alpha beta)
  case Nil
  show ?case by simp
next
  case (Cons m ms)
  obtain r s1 where c: "child (s\<lparr>board := push (board s) m\<rparr>) alpha beta = (r, s1)"
    by (cases "child (s\<lparr>board := push (board s) m\<rparr>) alpha beta")
  have g: "grows (s\<lparr>board := push (board s) m\<rparr>) (r, s1)"
    using ch[of "s\<lparr>board := push (board s) m\<rparr>" alpha beta] c by simp
  show ?case
  proof (cases r)
    case (Inl e)
    then show ?thesis
      using g by (simp add: max_loop_step[where child=child, OF c] grows_after_push)
  next
    case (Inr v)
    then have b1: "board s1 = push (board s) m"
      and sb: "same_board s (s1\<lparr>board := board s\<rparr>)"
      using g by (simp_all add: grows_pushed_Inr grows_pushed_restore)
    have "\<And>best2 alpha2. grows s (max_loop child ms (s1\<lparr>board := board s\<rparr>) best2 alpha2 beta)"
      by (rule grows_chain[OF sb Cons.IH])
    then show ?thesis
      using Inr b1 sb by (simp add: max_loop_step[where child=child, OF c] grows_same_board)
  qed
qed

lemma min_loop_grows:
  assumes ch: "\<And>t a b. grows t (child t a b)"
  shows "grows s (min_loop child ms s best alpha beta)"
proof (induction ms arbitrary: s best alpha beta)
  case Nil
  show ?case by simp
next
  case (Cons m ms)
  obtain r s1 where c: "child (s\<lparr>board := push (board s) m\<rparr>) alpha beta = (r, s1)"
    by (cases "child (s\<lparr>board := push (board s) m\<rparr>) alpha beta")
  have g: "grows (s\<lparr>board := push (board s) m\<rparr>) (r, s1)"
    using ch[of "s\<lparr>board := push (board s) m\<rparr>" alpha beta] c by simp
  show ?case
  proof (cases r)
    case (Inl e)
    then show ?thesis
      using g by (simp add: min_loop_step[where child=child, OF c] grows_after_push)
  next
    case (Inr v)
    then have b1: "board s1 = push (board s) m"
      and sb: "same_board s (s1\<lparr>board := board s\<rparr>)"
      using g by (simp_all add: grows_pushed_Inr grows_pushed_restore)
    have "\<And>best2 beta2. grows s (min_loop child ms (s1\<lparr>board := board s\<rparr>) best2 alpha beta2)"
      by (rule grows_chain[OF sb Cons.IH])
    then show ?thesis
      using Inr b1 sb by (simp add: min_loop_step[where child=child, OF c] grows_same_board)
  qed
qed

lemma root_branch_grows:
  "(\<And>t. grows t (child t)) \<Longrightarrow> grows t (root_branch E child t)"
  by (simp add: root_branch_def)

lemma root_loop_grows:
  assumes ch: "\<And>t. grows t (child t)"
  shows "grows s (root_loop E child maximize ms s best found)"
proof (induction ms arbitrary: s best found)
  case Nil
  show ?case by simp
next
  case (Cons m ms)
  obtain r s1 where c: "root_branch E child (s\<lparr>board := push (board s) m\<rparr>) = (r, s1)"
    by (cases "root_branch E child (s\<lparr>board := push (board s) m\<rparr>)")
  have g: "grows (s\<lparr>board := push (board s) m\<rparr>) (r, s1)"
    using root_branch_grows[of child "s\<lparr>board := push (board s) m\<rparr>" E] ch c by simp
  show ?case
  proof (cases r)
    case (Inl e)
    then show ?thesis
      using g by (simp add: root_loop_step[where child=child, OF c] grows_after_push)
  next
    case (Inr v)
    then have b1: "board s1 = push (board s) m"
      and sb: "same_board s (s1\<lparr>board := board s\<rparr>)"
      using g by (simp_all add: grows_pushed_Inr grows_pushed_restore)
    have "\<And>best2 found2. grows s (root_loop E child maximize ms (s1\<lparr>board := board s\<rparr>) best2 found2)"
      by (rule grows_chain[OF sb Cons.IH])
    then show ?thesis
      using Inr b1 by (simp add: root_loop_step[where child=child, OF c])
  qed
qed

lemma minimax_grows: "grows s (minimax E gom n depth s alpha beta is_max)"
proof (induction n arbitrary: depth s alpha beta is_max)
  case 0
  show ?case by simp
next
  case (Suc n)
  show ?case
  proof (cases "count_node s")
    case (Inl e)
    then show ?thesis by simp
  next
    case (Inr s0)
    have b0: "same_board s s0"
      by (rule count_node_same[OF Inr])
    have mx: "\<And>ms f. grows s (max_loop (\<lambda>s' a b. minimax E gom n (depth - 1) s' a b f)
                               ms s0 MInf alpha beta)"
      by (rule grows_chain[OF b0 max_loop_grows]) (rule Suc.IH)
    have mn: "\<And>ms f. grows s (min_loop (\<lambda>s' a b. minimax E gom n (depth - 1) s' a b f)
                               ms s0 PInf alpha beta)"
      by (rule grows_chain[OF b0 min_loop_grows]) (rule Suc.IH)
    show ?thesis
      using Inr b0 mx mn by (simp add: grows_same_board split: sum.splits)
  qed
qed

lemma minimax_root_select_grows: "grows s (minimax_root_select E gom n depth s)"
  by (simp add: minimax_root_select_unfold root_loop_grows minimax_grows
      split: sum.splits list.splits)

lemma minimax_root_grows: "grows s (minimax_root E gom n depth s)"
proof -
  obtain r s' where c: "minimax_root_select E gom n depth s = (r, s')"
    by (cases "minimax_root_select E gom n depth s")
  then have "grows s (r, s')"
    using minimax_root_select_grows[of s E gom n depth] by simp
  then show ?thesis
    using c by (cases r) (auto simp: minimax_root_def grows_def)
qed

lemmas tree_eval =
  tree_env_def tree_order_def tree_state_def g_node_def g_inner_def g_leaf_def g_checkmate_def
  g_dead_def push_def pop_def count_node_def WHITE_def BLACK_def minimax_root_def
  minimax_root_select_def root_loop.simps max_loop.simps min_loop.simps Let_def
  MATE_SCORE_def MATE_THRESHOLD_def


lemma minimax_root_module: "minimax_root E (get_ordered_moves E) n depth s = (Inl AttributeError, s)"
  by (simp add: minimax_root_def minimax_root_select_unfold)



section \<open>Mate-distance adjustment\<close>

lemma mate_adjust_cases:
  "mate_adjust c =
     (case c of
        Fin v \<Rightarrow> Fin (if MATE_THRESHOLD < \<bar>v\<bar> then (if 0 < v then v - 1 else v + 1) else v)
      | MInf \<Rightarrow> MInf
      | PInf \<Rightarrow> PInf)"
  by (cases c) (auto simp: mate_adjust_def MATE_THRESHOLD_def)

lemma minimax_pushed_pop:
  assumes "minimax E gom n d (t\<lparr>board := push (board t) m\<rparr>) a b f = (Inr c, t1)"
  shows "pop (board t1) = Inr (board t)"
proof -
  have "grows (t\<lparr>board := push (board t) m\<rparr>) (Inr c, t1)"
    using minimax_grows[of "t\<lparr>board := push (board t) m\<rparr>" E gom n d a b f] assms by simp
  then have "board t1 = push (board t) m"
    by (rule grows_pushed_Inr)
  then show ?thesis by simp
qed

text \<open>
  C6. An interior node of \<open>minimax\<close> (counter present, not checkmate, not otherwise over,
  depth not 0, the orderer returning \<open>moves\<close>) runs the maximizing or the minimizing loop
  over \<open>moves\<close> with the recursive call as \<open>child\<close>. In every iteration of either loop in
  which the recursive call returns the score \<open>c\<close>, the score that enters the running
  maximum (minimum), the bound update and the cutoff test is \<open>c'\<close>: for a finite
  \<open>c = v\<close> it is \<open>v - 1\<close> if \<open>v > MATE_THRESHOLD\<close>, \<open>v + 1\<close> if \<open>v < -MATE_THRESHOLD\<close> and
  \<open>v\<close> if \<open>|v| \<le> MATE_THRESHOLD\<close>; an infinite \<open>c\<close> (the result of a node without moves)
  absorbs the summand and stays as it is.
\<close>

theorem mate_distance_adjustment:
  assumes ch: "child = (\<lambda>s' a b. minimax E gom n (depth - 1) s' a b (\<not> is_max))"
  shows "(count_node s = Inr s0 \<and> \<not> is_checkmate E (board s) \<and> \<not> is_game_over E (board s)
            \<and> depth \<noteq> 0 \<and> gom (board s) = Inr moves \<longrightarrow>
          minimax E gom (Suc n) depth s alpha beta is_max =
            (if is_max then max_loop child moves s0 MInf alpha beta
             else min_loop child moves s0 PInf alpha beta))
       \<and> (child (t\<lparr>board := push (board t) m\<rparr>) a b = (Inr c, t1) \<longrightarrow>
          (let c' = (case c of
                       Fin v \<Rightarrow> Fin (if MATE_THRESHOLD < \<bar>v\<bar>
                                       then (if 0 < v then v - 1 else v + 1) else v)
                     | MInf \<Rightarrow> MInf
                     | PInf \<Rightarrow> PInf);
               t2 = t1\<lparr>board := board t\<rparr>
           in max_loop child (m # ms) t best a b =
                (if b \<le> max a (max best c') then (Inr (max best c'), t2)
                 else max_loop child ms t2 (max best c') (max a (max best c')) b)
            \<and> min_loop child (m # ms) t best a b =
                (if min b (min best c') \<le> a then (Inr (min best c'), t2)
                 else min_loop child ms t2 (min best c') a (min b (min best c')))))"
proof (intro conjI impI)
  assume h: "count_node s = Inr s0 \<and> \<not> is_checkmate E (board s) \<and> \<not> is_game_over E (board s)
            \<and> depth \<noteq> 0 \<and> gom (board s) = Inr moves"
  then have b0: "board s0 = board s"
    by (simp add: count_node_board)
  show "minimax E gom (Suc n) depth s alpha beta is_max =
            (if is_max then max_loop child moves s0 MInf alpha beta
             else min_loop child moves s0 PInf alpha beta)"
    using h b0 unfolding ch by (cases is_max) simp_all
next
  assume c: "child (t\<lparr>board := push (board t) m\<rparr>) a b = (Inr c, t1)"
  then have "minimax E gom n (depth - 1) (t\<lparr>board := push (board t) m\<rparr>) a b (\<not> is_max)
               = (Inr c, t1)"
    unfolding ch .
  then have p: "pop (board t1) = Inr (board t)"
    by (rule minimax_pushed_pop)
  show "let c' = (case c of
                       Fin v \<Rightarrow> Fin (if MATE_THRESHOLD < \<bar>v\<bar>
                                       then (if 0 < v then v - 1 else v + 1) else v)
                     | MInf \<Rightarrow> MInf
                     | PInf \<Rightarrow> PInf);
               t2 = t1\<lparr>board := board t\<rparr>
           in max_loop child (m # ms) t best a b =
                (if b \<le> max a (max best c') then (Inr (max best c'), t2)
                 else max_loop child ms t2 (max best c') (max a (max best c')) b)
            \<and> min_loop child (m # ms) t best a b =
                (if min b (min best c') \<le> a then (Inr (min best c'), t2)
                 else min_loop child ms t2 (min best c') a (min b (min best c')))"
    unfolding Let_def mate_adjust_cases[symmetric]
    using p
    by (simp add: max_loop_step[where child=child, OF c] min_loop_step[where child=child, OF c])
qed

theorem mate_distance_adjustment_witness:
  "fst (minimax (tree_env True) tree_order (Suc 1) 1 (tree_state mate_in_one) MInf PInf True)
     = Inr (Fin 999999999)
   \<and> fst (minimax (tree_env True) tree_order (Suc 1) 1 (tree_state mate_in_one) MInf PInf False)
     = Inr (Fin (- 999999999))
   \<and> fst (minimax (tree_env True) tree_order (Suc 1) 1 (tree_state one_move_tree) MInf PInf True)
     = Inr (Fin 7)"
proof -
  let ?E = "tree_env True"
  have node: "\<And>tr is_max.
      tr = mate_in_one \<or> tr = one_move_tree \<Longrightarrow>
      count_node (tree_state tr)
        = Inr ((tree_state tr)\<lparr>debug_info := (debug_info (tree_state tr))(''nodes'' \<mapsto> 0 + 1)\<rparr>)
      \<and> \<not> is_checkmate ?E (board (tree_state tr)) \<and> \<not> is_game_over ?E (board (tree_state tr))
      \<and> (1::int) \<noteq> 0 \<and> tree_order (board (tree_state tr)) = Inr [0]"
    by (auto simp: tree_eval mate_in_one_def one_move_tree_def)
  have run: "\<And>tr is_max c best.
      tr = mate_in_one \<or> tr = one_move_tree \<Longrightarrow>
      fst (minimax ?E tree_order 1 (1 - 1)
             (((tree_state tr)\<lparr>debug_info := (debug_info (tree_state tr))(''nodes'' \<mapsto> 0 + 1)\<rparr>)
                \<lparr>board := push (board (tree_state tr)) 0\<rparr>) MInf PInf (\<not> is_max)) = Inr c \<Longrightarrow>
      best = (if is_max then MInf else PInf) \<Longrightarrow>
      fst (minimax ?E tree_order (Suc 1) 1 (tree_state tr) MInf PInf is_max)
        = Inr (if is_max then max best (mate_adjust c) else min best (mate_adjust c))"
  proof -
    fix tr is_max c best
    assume tr: "tr = mate_in_one \<or> tr = one_move_tree"
    let ?st = "tree_state tr"
    let ?cnt = "?st\<lparr>debug_info := (debug_info ?st)(''nodes'' \<mapsto> 0 + 1)\<rparr>"
    let ?ch = "\<lambda>s' a b. minimax ?E tree_order 1 (1 - 1) s' a b (\<not> is_max)"
    assume "fst (?ch (?cnt\<lparr>board := push (board ?st) 0\<rparr>) MInf PInf) = Inr c"
      and best: "best = (if is_max then MInf else PInf)"
    then obtain t1 where c: "?ch (?cnt\<lparr>board := push (board ?cnt) 0\<rparr>) MInf PInf = (Inr c, t1)"
      by (cases "?ch (?cnt\<lparr>board := push (board ?st) 0\<rparr>) MInf PInf") simp
    note T = mate_distance_adjustment[where child="?ch" and E="?E" and gom=tree_order and n=1
        and depth=1 and is_max=is_max and s="?st" and ?s0.0="?cnt" and moves="[0]"
        and alpha=MInf and beta=PInf and t="?cnt" and m=0 and a=MInf and b=PInf and c=c
        and ?t1.0=t1 and ms="[]" and best=best, OF refl]
    have n1: "minimax ?E tree_order (Suc 1) 1 ?st MInf PInf is_max =
            (if is_max then max_loop ?ch [0] ?cnt MInf MInf PInf
             else min_loop ?ch [0] ?cnt PInf MInf PInf)"
      using T node[OF tr] by blast
    have n2: "max_loop ?ch [0] ?cnt best MInf PInf
                = (Inr (max best (mate_adjust c)), t1\<lparr>board := board ?cnt\<rparr>)
            \<and> min_loop ?ch [0] ?cnt best MInf PInf
                = (Inr (min best (mate_adjust c)), t1\<lparr>board := board ?cnt\<rparr>)"
      using T c by (simp add: mate_adjust_cases[symmetric] Let_def max_loop.simps min_loop.simps
          split: if_splits)
    show "fst (minimax ?E tree_order (Suc 1) 1 ?st MInf PInf is_max)
        = Inr (if is_max then max best (mate_adjust c) else min best (mate_adjust c))"
      using n1 n2 best by (cases is_max) simp_all
  qed
  have c1: "fst (minimax ?E tree_order 1 (1 - 1)
             (((tree_state mate_in_one)\<lparr>debug_info := (debug_info (tree_state mate_in_one))(''nodes'' \<mapsto> 0 + 1)\<rparr>)
                \<lparr>board := push (board (tree_state mate_in_one)) 0\<rparr>) MInf PInf (\<not> True))
             = Inr (Fin 1000000000)"
    by (simp add: tree_eval mate_in_one_def)
  have c2: "fst (minimax ?E tree_order 1 (1 - 1)
             (((tree_state mate_in_one)\<lparr>debug_info := (debug_info (tree_state mate_in_one))(''nodes'' \<mapsto> 0 + 1)\<rparr>)
                \<lparr>board := push (board (tree_state mate_in_one)) 0\<rparr>) MInf PInf (\<not> False))
             = Inr (Fin (- 1000000000))"
    by (simp add: tree_eval mate_in_one_def)
  have c3: "fst (minimax ?E tree_order 1 (1 - 1)
             (((tree_state one_move_tree)\<lparr>debug_info := (debug_info (tree_state one_move_tree))(''nodes'' \<mapsto> 0 + 1)\<rparr>)
                \<lparr>board := push (board (tree_state one_move_tree)) 0\<rparr>) MInf PInf (\<not> True))
             = Inr (Fin 7)"
    by (simp add: tree_eval one_move_tree_def)
  show ?thesis
    using run[OF _ c1 refl] run[OF _ c2 refl] run[OF _ c3 refl]
    by (simp add: mate_adjust_def MATE_THRESHOLD_def)
qed

section \<open>The root driver's branches\<close>

text \<open>
  C7. \<open>minimax_root\<close> runs its loop with one and the same recursive call for every root
  move: \<open>minimax\<close> at \<open>depth - 1\<close>, bounds \<open>-inf\<close> and \<open>+inf\<close>, and the maximizing flag
  flipped. In an iteration whose move leads to a position with a claimable draw the value
  is 0 and the loop continues in the unchanged state, whatever the recursive call is (it is
  not made); otherwise the value is the result of the recursive call on the pushed board.
\<close>

theorem root_branch_values:
  "minimax_root_select E gom n depth s =
     (case gom (board s) of
        Inl e \<Rightarrow> (Inl e, s)
      | Inr moves \<Rightarrow>
          (case moves of
             [] \<Rightarrow> (Inl IndexError, s)
           | m0 # _ \<Rightarrow>
               root_loop E
                 (\<lambda>s'. minimax E gom n (depth - 1) s' MInf PInf (\<not> (turn E (board s) = WHITE)))
                 (turn E (board s) = WHITE) moves s
                 (if turn E (board s) = WHITE then MInf else PInf) m0))
   \<and> (can_claim_draw E (push (board s) m) \<longrightarrow>
        root_loop E child maximize (m # ms) s best found =
          root_loop E child maximize ms s
            (if root_update maximize best (Fin 0) then Fin 0 else best)
            (if root_update maximize best (Fin 0) then m else found))
   \<and> (\<not> can_claim_draw E (push (board s) m) \<longrightarrow>
        root_loop E child maximize (m # ms) s best found =
          (case child (s\<lparr>board := push (board s) m\<rparr>) of
             (Inl e, s1) \<Rightarrow> (Inl e, s1)
           | (Inr v, s1) \<Rightarrow>
               (case pop (board s1) of
                  Inl e \<Rightarrow> (Inl e, s1)
                | Inr b \<Rightarrow>
                    root_loop E child maximize ms (s1\<lparr>board := b\<rparr>)
                      (if root_update maximize best v then v else best)
                      (if root_update maximize best v then m else found))))"
proof (intro conjI impI)
  show "minimax_root_select E gom n depth s =
     (case gom (board s) of
        Inl e \<Rightarrow> (Inl e, s)
      | Inr moves \<Rightarrow>
          (case moves of
             [] \<Rightarrow> (Inl IndexError, s)
           | m0 # _ \<Rightarrow>
               root_loop E
                 (\<lambda>s'. minimax E gom n (depth - 1) s' MInf PInf (\<not> (turn E (board s) = WHITE)))
                 (turn E (board s) = WHITE) moves s
                 (if turn E (board s) = WHITE then MInf else PInf) m0))"
    by (simp add: minimax_root_select_unfold)
next
  assume d: "can_claim_draw E (push (board s) m)"
  have "root_branch E child (s\<lparr>board := push (board s) m\<rparr>)
          = (Inr (Fin 0), s\<lparr>board := push (board s) m\<rparr>)"
    using d by (simp add: root_branch_def)
  from root_loop_step[where child=child, OF this]
  show "root_loop E child maximize (m # ms) s best found =
          root_loop E child maximize ms s
            (if root_update maximize best (Fin 0) then Fin 0 else best)
            (if root_update maximize best (Fin 0) then m else found)"
    by simp
next
  assume d: "\<not> can_claim_draw E (push (board s) m)"
  obtain r s1 where c: "child (s\<lparr>board := push (board s) m\<rparr>) = (r, s1)"
    by (cases "child (s\<lparr>board := push (board s) m\<rparr>)")
  have "root_branch E child (s\<lparr>board := push (board s) m\<rparr>) = (r, s1)"
    using d c by (simp add: root_branch_def)
  from root_loop_step[where child=child, OF this]
  show "root_loop E child maximize (m # ms) s best found =
          (case child (s\<lparr>board := push (board s) m\<rparr>) of
             (Inl e, s1) \<Rightarrow> (Inl e, s1)
           | (Inr v, s1) \<Rightarrow>
               (case pop (board s1) of
                  Inl e \<Rightarrow> (Inl e, s1)
                | Inr b \<Rightarrow>
                    root_loop E child maximize ms (s1\<lparr>board := b\<rparr>)
                      (if root_update maximize best v then v else best)
                      (if root_update maximize best v then m else found)))"
    using c by (simp split: sum.splits)
qed

theorem root_branch_values_witness:
  "can_claim_draw (tree_env True) (push (board (tree_state draw_then_leaf)) 0)
   \<and> \<not> can_claim_draw (tree_env True) (push (board (tree_state draw_then_leaf)) 1)
   \<and> fst (minimax_root_select (tree_env True) tree_order 1 1 (tree_state draw_then_leaf))
        = Inr (Fin 7, 1)
   \<and> debug_info (snd (minimax_root_select (tree_env True) tree_order 1 1 (tree_state draw_then_leaf)))
        ''nodes'' = Some 1"
proof -
  let ?E = "tree_env True"
  let ?s = "tree_state draw_then_leaf"
  let ?ch = "\<lambda>s'. minimax ?E tree_order 1 (1 - 1) s' MInf PInf (\<not> (turn ?E (board ?s) = WHITE))"
  have d0: "can_claim_draw ?E (push (board ?s) 0)"
    by (simp add: tree_eval draw_then_leaf_def)
  have d1: "\<not> can_claim_draw ?E (push (board ?s) 1)"
    by (simp add: tree_eval draw_then_leaf_def)
  have g: "tree_order (board ?s) = Inr [0, 1]" "turn ?E (board ?s) = WHITE"
    by (simp_all add: tree_eval draw_then_leaf_def)
  note r = root_branch_values[of ?E tree_order 1 1 ?s 0 ?ch True "[1]" MInf 0]
  note r1 = root_branch_values[of ?E tree_order 1 1 ?s 1 ?ch True "[]" "Fin 0" 0]
  have sel: "minimax_root_select ?E tree_order 1 1 ?s = root_loop ?E ?ch True [0, 1] ?s MInf 0"
    using r g by simp
  have step0: "root_loop ?E ?ch True [0, 1] ?s MInf 0 = root_loop ?E ?ch True [1] ?s (Fin 0) 0"
    using r d0 by (simp add: root_update_def)
  have step1: "root_loop ?E ?ch True [1] ?s (Fin 0) 0 =
       (case ?ch (?s\<lparr>board := push (board ?s) 1\<rparr>) of
             (Inl e, s1) \<Rightarrow> (Inl e, s1)
           | (Inr v, s1) \<Rightarrow>
               (case pop (board s1) of
                  Inl e \<Rightarrow> (Inl e, s1)
                | Inr b \<Rightarrow>
                    root_loop ?E ?ch True [] (s1\<lparr>board := b\<rparr>)
                      (if root_update True (Fin 0) v then v else Fin 0)
                      (if root_update True (Fin 0) v then 1 else 0)))"
    using r1 d1 by simp
  show ?thesis
    unfolding sel step0 step1 using d0 d1
    by (simp add: tree_eval draw_then_leaf_def root_update_def)
qed

section \<open>The result does not depend on the node counter's value\<close>

lemma same_resultI: "r = r' \<Longrightarrow> same_board s t \<Longrightarrow> same_result (r, s) (r', t)"
  by (simp add: same_result_def)







section \<open>The root driver as a choice over the values of the root moves\<close>



lemma root_update_init [simp]: "root_update mx (if mx then MInf else PInf) v"
  by (simp add: root_update_def)


declare full_root_loop.simps(2) [simp del]








lemma root_update_le: "root_update mx x b = (if mx then x \<le> b else b \<le> x)"
  by (simp add: root_update_def)

lemma root_update_less: "(\<not> root_update mx b x) = (if mx then x < b else b < x)"
  by (auto simp: root_update_def)





section \<open>The returned move is one of the ordered moves\<close>

lemma root_loop_member:
  "root_loop E child mx ms s best found = (Inr (b, f), s') \<Longrightarrow> f = found \<or> f \<in> set ms"
proof (induction ms arbitrary: s best found)
  case Nil
  then show ?case by simp
next
  case (Cons m ms)
  obtain r s1 where c: "root_branch E child (s\<lparr>board := push (board s) m\<rparr>) = (r, s1)"
    by (cases "root_branch E child (s\<lparr>board := push (board s) m\<rparr>)")
  from Cons.prems obtain v where r: "r = Inr v"
    by (cases r) (simp_all add: root_loop_step[where child=child, OF c])
  from Cons.prems r obtain bd where p: "pop (board s1) = Inr bd"
    by (cases "pop (board s1)") (simp_all add: root_loop_step[where child=child, OF c])
  have "root_loop E child mx ms (s1\<lparr>board := bd\<rparr>)
          (if root_update mx best v then v else best)
          (if root_update mx best v then m else found) = (Inr (b, f), s')"
    using Cons.prems r p by (simp add: root_loop_step[where child=child, OF c])
  from Cons.IH[OF this] show ?case
    by (auto split: if_splits)
qed

lemma root_loop_init_member:
  assumes "root_loop E child mx (m # ms) s (if mx then MInf else PInf) found = (Inr (b, f), s')"
  shows "f \<in> set (m # ms)"
proof -
  obtain r s1 where c: "root_branch E child (s\<lparr>board := push (board s) m\<rparr>) = (r, s1)"
    by (cases "root_branch E child (s\<lparr>board := push (board s) m\<rparr>)")
  from assms obtain v where r: "r = Inr v"
    by (cases r) (simp_all add: root_loop_step[where child=child, OF c])
  from assms r obtain bd where p: "pop (board s1) = Inr bd"
    by (cases "pop (board s1)") (simp_all add: root_loop_step[where child=child, OF c])
  have "root_loop E child mx ms (s1\<lparr>board := bd\<rparr>) v m = (Inr (b, f), s')"
    using assms r p root_update_init[of mx v]
    by (simp add: root_loop_step[where child=child, OF c])
  from root_loop_member[OF this] show ?thesis
    by auto
qed

text \<open>
  C10. If the move orderer returns the non-empty list \<open>ms\<close> for the position and
  \<open>minimax_root\<close> returns the move \<open>mv\<close>, then \<open>mv\<close> is an element of \<open>ms\<close>. More: the
  loop of \<open>minimax_root\<close>, started with the score \<open>-inf\<close> for the maximizer (\<open>+inf\<close> for the
  minimizer), ends with a selection from \<open>ms\<close> whatever the selection was initialised to
  and whatever the recursive call is, because its first iteration replaces the selection.
\<close>

theorem minimax_root_returns_ordered_move:
  assumes "gom (board s) = Inr ms" and "ms \<noteq> []"
    and "fst (minimax_root E gom n depth s) = Inr mv"
  shows "mv \<in> set ms
         \<and> (\<forall>child found b f s'.
               root_loop E child (turn E (board s) = WHITE) ms s
                 (if turn E (board s) = WHITE then MInf else PInf) found = (Inr (b, f), s')
               \<longrightarrow> f \<in> set ms)"
proof
  obtain m0 rest where ms: "ms = m0 # rest"
    using assms(2) by (cases ms) simp_all
  show all: "\<forall>child found b f s'.
               root_loop E child (turn E (board s) = WHITE) ms s
                 (if turn E (board s) = WHITE then MInf else PInf) found = (Inr (b, f), s')
               \<longrightarrow> f \<in> set ms"
    unfolding ms by (intro allI impI) (rule root_loop_init_member)
  obtain r s' where sel: "minimax_root_select E gom n depth s = (r, s')"
    by (cases "minimax_root_select E gom n depth s")
  with assms(3) obtain b where r: "r = Inr (b, mv)"
    by (cases r) (auto simp: minimax_root_def)
  have "root_loop E (\<lambda>s'. minimax E gom n (depth - 1) s' MInf PInf (turn E (board s) \<noteq> WHITE))
          (turn E (board s) = WHITE) ms s
          (if turn E (board s) = WHITE then MInf else PInf) m0 = (Inr (b, mv), s')"
    using sel r assms(1) ms by (simp only: minimax_root_select_unfold sum.case list.case)
  with all show "mv \<in> set ms"
    by blast
qed

theorem minimax_root_returns_ordered_move_witness:
  "tree_order (board (tree_state draw_then_leaf)) = Inr [0, 1]
   \<and> [0, 1] \<noteq> ([]::nat list)
   \<and> fst (minimax_root (tree_env True) tree_order 1 1 (tree_state draw_then_leaf)) = Inr 1
   \<and> (1::nat) \<in> set [0, 1]"
proof -
  have h1: "tree_order (board (tree_state draw_then_leaf)) = Inr [0, 1]"
    by (simp add: tree_eval draw_then_leaf_def)
  have h2: "[0, 1] \<noteq> ([]::nat list)"
    by simp
  have h3: "fst (minimax_root (tree_env True) tree_order 1 1 (tree_state draw_then_leaf)) = Inr 1"
    by (simp add: tree_eval draw_then_leaf_def)
  show ?thesis
    using h1 h3 minimax_root_returns_ordered_move[OF h1 h2 h3] by simp
qed

section \<open>Depths below one\<close>

lemma minimax_negative_depth:
  "depth < 0 \<Longrightarrow> depth' < 0 \<Longrightarrow>
   minimax (E\<lparr>evaluate_board := ev\<rparr>) gom n depth' s alpha beta is_max
     = minimax E gom n depth s alpha beta is_max"
proof (induction n arbitrary: depth depth' s alpha beta is_max)
  case 0
  show ?case by simp
next
  case (Suc n)
  have "\<And>f. (\<lambda>s' a b. minimax (E\<lparr>evaluate_board := ev\<rparr>) gom n (depth' - 1) s' a b f)
            = (\<lambda>s' a b. minimax E gom n (depth - 1) s' a b f)"
    using Suc.prems by (intro ext Suc.IH) simp_all
  then show ?case
    using Suc.prems by (simp split: sum.splits)
qed

lemma root_loop_env:
  "root_loop (E\<lparr>evaluate_board := ev\<rparr>) child mx ms s best found
     = root_loop E child mx ms s best found"
proof (induction ms arbitrary: s best found)
  case Nil
  show ?case by simp
next
  case (Cons m ms)
  obtain r s1 where c: "root_branch E child (s\<lparr>board := push (board s) m\<rparr>) = (r, s1)"
    by (cases "root_branch E child (s\<lparr>board := push (board s) m\<rparr>)")
  then have c': "root_branch (E\<lparr>evaluate_board := ev\<rparr>) child (s\<lparr>board := push (board s) m\<rparr>)
                   = (r, s1)"
    by (simp add: root_branch_def)
  show ?case
    by (simp add: root_loop_step[where child=child, OF c] root_loop_step[where child=child, OF c']
        Cons.IH split: sum.splits)
qed

text \<open>
  For every orderer: \<open>minimax_root\<close> does not test its depth, and a negative depth never
  reaches the depth-zero leaf, so all depths of at most 0 have one outcome, which does not
  depend on the Static Evaluator.
\<close>

lemma nonpositive_depths_alike:
  assumes "depth \<le> 0" and "depth' \<le> 0"
  shows "minimax_root (E\<lparr>evaluate_board := ev\<rparr>) gom n depth' s = minimax_root E gom n depth s"
proof -
  have "\<And>f. (\<lambda>s'. minimax (E\<lparr>evaluate_board := ev\<rparr>) gom n (depth' - 1) s' MInf PInf f)
            = (\<lambda>s'. minimax E gom n (depth - 1) s' MInf PInf f)"
    using assms by (intro ext minimax_negative_depth) simp_all
  then have "minimax_root_select (E\<lparr>evaluate_board := ev\<rparr>) gom n depth' s
               = minimax_root_select E gom n depth s"
    by (simp add: minimax_root_select_unfold root_loop_env split: sum.splits list.splits)
  then show ?thesis
    by (simp add: minimax_root_def)
qed

text \<open>
  C9. Called with a depth of at most 0, \<open>minimax_root\<close> raises in the state it was called
  in: no move has been pushed and no call of \<open>minimax\<close> has counted a node. \<open>next_move\<close>
  raises with the board unchanged and the node counter at the 0 it was reset to. (The raise
  is that of the move ordering, which precedes the loop over the root moves.)
\<close>

theorem minimax_root_fails_before_search:
  assumes "depth \<le> 0"
  shows "minimax_root E (get_ordered_moves E) n depth s = (Inl AttributeError, s)
       \<and> next_move E (get_ordered_moves E) n depth s
            = (Inl AttributeError, s\<lparr>debug_info := Map.empty(''nodes'' \<mapsto> 0)\<rparr>)"
  by (simp add: minimax_root_module next_move_def)

theorem minimax_root_fails_before_search_witness:
  "(0::int) \<le> 0
   \<and> minimax_root (tree_env True) (get_ordered_moves (tree_env True)) 9 0 (tree_state mate_line)
        = (Inl AttributeError, tree_state mate_line)
   \<and> fst (next_move (tree_env True) (get_ordered_moves (tree_env True)) 9 0 (tree_state mate_line))
        = Inl AttributeError
   \<and> debug_info (snd (next_move (tree_env True) (get_ordered_moves (tree_env True)) 9 0
                          (tree_state mate_line))) ''nodes'' = Some 0
   \<and> board (snd (next_move (tree_env True) (get_ordered_moves (tree_env True)) 9 0
                     (tree_state mate_line))) = board (tree_state mate_line)"
proof -
  have h: "(0::int) \<le> 0" by simp
  show ?thesis
    using h minimax_root_fails_before_search[OF h, of "tree_env True" 9 "tree_state mate_line"]
    by simp
qed

section \<open>Pruning without mate scores\<close>

lemma tame_simps [simp]: "tame MInf" "tame PInf" "tame (Fin 0)"
  by (simp_all add: tame_def mate_adjust_def MATE_THRESHOLD_def)









lemma knows_refl [simp]: "knows alpha beta c c"
  by (simp add: knows_def)




lemma score_max_min_inf [simp]:
  "max a MInf = a" "max MInf a = a" "min a PInf = a" "min PInf a = a"
  by (simp_all add: max_def min_def)








section \<open>The search with an orderer that returns\<close>

text \<open>
  The module's orderer never returns, so its search never runs a loop. The statements of
  this section evaluate the search with the orderer \<open>tree_order\<close> in the place of the
  parameter \<open>gom\<close>; they are about the loops as written, not about a run of the module.

  With mate scores the pruned and the unpruned loops can differ. On \<open>mates_tree\<close> at depth
  7 the unpruned search values both root moves at \<open>MATE_SCORE - 4\<close> and selects move 1;
  the pruned search values move 1 at \<open>MATE_SCORE - 6\<close> and selects move 0: a cutoff returns
  a mate score that is only a bound, and the adjustment by one at each level on the way up
  moves it below the window it was cut at.
\<close>

lemma loops_differ_on_mates:
  "fst (minimax_root_select (tree_env True) tree_order 7 7 (tree_state mates_tree))
     = Inr (Fin 999999996, 0)
   \<and> full_root_select (tree_env True) tree_order 7 7 (board (tree_state mates_tree))
     = Inr (Fin 999999996, 1)
   \<and> root_value (tree_env True) tree_order 7 7 (tree_state mates_tree) 1 = Inr (Fin 999999994)
   \<and> full_root_value (tree_env True) tree_order 7 7 (board (tree_state mates_tree)) True 1
     = Inr (Fin 999999996)"
  by (simp add: tree_eval mates_tree_def mate_at_5_def mate_at_5_from_2_def slow_then_fast_def
      eval_nat_numeral root_value_def root_branch_def full_root_select_def full_root_value_def
      full_root_loop.simps mate_adjust_def)

text \<open>
  A raise inside a recursive call leaves the moves of the current path pushed: there is no
  undo on a raise. With one move at the root, after which the evaluator raises, the call
  at depth 1 raises with that move on the board.
\<close>

lemma raise_leaves_move_pushed:
  "fst (minimax_root (tree_env True) tree_order 1 1 (tree_state raising_tree))
     = Inl (ExternalError ''malformed position'')
   \<and> move_stack (board (tree_state raising_tree)) = []
   \<and> move_stack (board (snd (minimax_root (tree_env True) tree_order 1 1 (tree_state raising_tree))))
       = [0]"
  by (simp add: tree_eval raising_tree_def)

text \<open>
  At depth 0 the loops search on: from a position from which a line of three moves ends in
  checkmate, the call at depth 0 returns a move after three calls of \<open>minimax\<close>.
\<close>

lemma depth_zero_searches:
  "fst (minimax_root (tree_env True) tree_order 9 0 (tree_state mate_line)) = Inr 0
   \<and> debug_info (tree_state mate_line) ''nodes'' = Some 0
   \<and> debug_info (snd (minimax_root (tree_env True) tree_order 9 0 (tree_state mate_line))) ''nodes''
        = Some 3
   \<and> fst (minimax_root_select (tree_env True) tree_order 9 0 (tree_state mate_line))
        = Inr (Fin 999999998, 0)"
  by (simp add: tree_eval mate_line_def eval_nat_numeral)

section \<open>The node counter under \<open>next_move\<close>\<close>

text \<open>\<open>next_move\<close> creates the node counter before it searches, and no call removes it:
  under \<open>next_move\<close> the increment at the head of \<open>minimax\<close> never raises.\<close>

lemma next_move_counter:
  "debug_info (snd (next_move E gom n depth s)) ''nodes'' \<noteq> None"
  using minimax_root_grows[of "s\<lparr>debug_info := Map.empty(''nodes'' \<mapsto> 0)\<rparr>" E gom n depth]
  by (simp add: next_move_def grows_def)
end
